theory Spec2Isabelle
  imports Complex_Main "HOL-Library.Word"
begin

section \<open>Garden-Cam relay controller: embedding of src/main.cpp\<close>

text \<open>
  The firmware is a single polling loop (\<open>loop\<close>) plus two I2C callbacks
  (\<open>rxEvent\<close>, \<open>txEvent\<close>) over a handful of global variables. The globals, the level
  of the relay output pin, the unread bytes of the Wire receive buffer and the lines
  printed on the serial port form one record; every function of the source becomes a
  function from state to state.

  What the hardware supplies is an explicit input: each call of \<open>millis()\<close>, each
  \<open>digitalRead(PIN_PIR)\<close> and each \<open>analogRead(A0)\<close> is a value handed to the
  function that makes the call. \<open>unsigned long\<close> is 32 bits on the AVR, so times are
  \<open>32 word\<close> and \<open>millis() - onMs\<close> wraps as in the source.

  The callbacks are interrupt handlers. In \<open>step\<close>, \<open>run\<close> and \<open>reachable\<close> below a
  handler runs between two iterations of \<open>loop\<close>; a handler that preempts \<open>loop\<close>
  between two of its statements is modelled separately, for the timeout block, by
  \<open>holdTimeout_irq\<close>. Left out, as they touch none of the state above: \<open>Serial.begin\<close>,
  the \<open>pinMode\<close> and \<open>Wire\<close> registration calls of \<open>setup\<close>, the ADC enable bit in
  \<open>readAdc\<close>, the dummy SPI interrupt and the \<open>delay(50)\<close> that ends \<open>loop\<close>.
\<close>

subsection \<open>Constants\<close>

definition RELAY_ON_STATE :: bool where
  \<comment> \<open>\<open>#define RELAY_ON_STATE HIGH\<close>; a pin level is a bool, \<open>True\<close> for HIGH\<close>
  "RELAY_ON_STATE = True"

definition CMD_SHUT :: "8 word" where
  "CMD_SHUT = 0x07"

definition CMD_MODE :: "8 word" where
  "CMD_MODE = 0x0D"

subsection \<open>State\<close>

datatype line =
    Banner          \<comment> \<open>\<open>=== GardenCam Arduino v5.3 ===\<close>\<close>
  | BattLow         \<comment> \<open>\<open>Batt < 5.4 V -> relay OFF + deep sleep\<close>\<close>
  | ModeAlwaysOn    \<comment> \<open>\<open>Mode: always-on -> relay HIGH (Pi ON)\<close>\<close>
  | ModePir         \<comment> \<open>\<open>Mode: PIR -> relay LOW (Pi OFF)\<close>\<close>
  | PirRising       \<comment> \<open>\<open>PIR ^ -> relay HIGH (60 s)\<close>\<close>
  | Elapsed60       \<comment> \<open>\<open>60 s elapsed -> relay LOW\<close>\<close>
  | ShutLine        \<comment> \<open>\<open>CMD_SHUT -> relay LOW\<close>\<close>

record state =
  battCutoff :: bool
  alwaysOn   :: bool
  rqShutdown :: bool
  powering   :: bool
  onMs       :: "32 word"
  lastPir    :: bool
  battPct    :: "8 word"
  battT      :: "32 word"
  relay_pin  :: bool            \<comment> \<open>level driven on \<open>PIN_RELAY\<close>\<close>
  rx         :: "8 word list"   \<comment> \<open>unread bytes of the Wire receive buffer\<close>
  serial     :: "line list"     \<comment> \<open>lines printed so far, oldest first\<close>

text \<open>
  The static initialisers of the globals. The relay pin is not configured before
  \<open>setup\<close>, so its level at power-on is a parameter.
\<close>

definition power_on :: "bool \<Rightarrow> state" where
  "power_on p =
     \<lparr> battCutoff = False, alwaysOn = True, rqShutdown = False, powering = True,
       onMs = 0, lastPir = False, battPct = 0, battT = 0,
       relay_pin = p, rx = [], serial = [] \<rparr>"

text \<open>
  \<open>LowPower.powerDown(SLEEP_FOREVER, ...)\<close> is the one call after which a function of
  the source does not come back. An operation therefore ends in one of two ways.
\<close>

datatype outcome =
    Returns state   \<comment> \<open>control is back with the caller\<close>
  | Halts state     \<comment> \<open>the controller sleeps forever in this state\<close>

fun and_then :: "outcome \<Rightarrow> (state \<Rightarrow> outcome) \<Rightarrow> outcome" where
  "and_then (Returns s) f = f s"
| "and_then (Halts h) f = Halts h"

fun final :: "outcome \<Rightarrow> state" where
  "final (Returns s) = s"
| "final (Halts h) = h"

text \<open>
  Modelled from the spec: \<open>LowPower.powerDown(SLEEP_FOREVER, ADC_OFF, BOD_OFF)\<close>. The
  LowPower library is not part of the sources; the specification describes the call as
  an unrecoverable halt: the process does not return and there is no wake source other
  than an external reset.
\<close>

definition powerDown :: "state \<Rightarrow> outcome" where
  "powerDown s = Halts s"

subsection \<open>Helpers\<close>

definition println :: "line \<Rightarrow> state \<Rightarrow> state" where
  "println l s = s\<lparr>serial := serial s @ [l]\<rparr>"

definition relayOn :: "state \<Rightarrow> state" where
  "relayOn s = s\<lparr>relay_pin := RELAY_ON_STATE\<rparr>"

definition relayOff :: "state \<Rightarrow> state" where
  "relayOff s = s\<lparr>relay_pin := \<not> RELAY_ON_STATE\<rparr>"

definition relayIsOn :: "state \<Rightarrow> bool" where
  "relayIsOn s = (relay_pin s = RELAY_ON_STATE)"

subsection \<open>Battery\<close>

text \<open>
  \<open>readAdc\<close> adds eight \<open>analogRead(A0)\<close> results (an \<open>int\<close>, 16 bits, converted to
  \<open>uint32_t\<close>) and returns the sum shifted right by three, cut to \<open>uint16_t\<close>. The
  \<open>i\<close>-th read is \<open>a i\<close>.
\<close>

primrec adcSum :: "(nat \<Rightarrow> 16 word) \<Rightarrow> nat \<Rightarrow> 32 word" where
  "adcSum a 0 = 0"
| "adcSum a (Suc i) = adcSum a i + scast (a i)"

definition readAdc :: "(nat \<Rightarrow> 16 word) \<Rightarrow> 16 word" where
  "readAdc a = ucast (drop_bit 3 (adcSum a 8))"

text \<open>
  \<open>saveBattery\<close> computes in \<open>float\<close>. The three floating-point expressions are
  parameters of the model, over any carrier \<open>'f\<close>; nothing below depends on how they
  round, nor on what the cast to \<open>uint8_t\<close> yields for a value outside 0..255.
\<close>

record 'f float_model =
  volts  :: "16 word \<Rightarrow> 'f"   \<comment> \<open>\<open>raw*VREF/1023.0*(R1+R2)/R2\<close>\<close>
  pct_u8 :: "'f \<Rightarrow> 8 word"    \<comment> \<open>\<open>(uint8_t)((v-5.5)*100.0/3.3)\<close>\<close>
  lt_cut :: "'f \<Rightarrow> bool"      \<comment> \<open>\<open>v < VBAT_CUT\<close>\<close>

definition constrain :: "int \<Rightarrow> int \<Rightarrow> int \<Rightarrow> int" where
  \<comment> \<open>Arduino.h: \<open>((amt)<(low)?(low):((amt)>(high)?(high):(amt)))\<close>\<close>
  "constrain amt low high = (if amt < low then low else if amt > high then high else amt)"

definition saveBattery :: "'f float_model \<Rightarrow> (nat \<Rightarrow> 16 word) \<Rightarrow> state \<Rightarrow> outcome" where
  "saveBattery fm a s =
     (let raw = readAdc a;
          v = volts fm raw;
          s1 = s\<lparr>battPct := word_of_int (constrain (uint (pct_u8 fm v)) 0 100)\<rparr>
      in if battCutoff s1 \<and> lt_cut fm v
         then powerDown (relayOff (println BattLow s1))
         else Returns s1)"

subsection \<open>Relay and mode\<close>

definition applyRelay :: "32 word \<Rightarrow> state \<Rightarrow> state" where
  \<comment> \<open>the argument is what \<open>millis()\<close> returns in the always-on branch\<close>
  "applyRelay now s =
     (if alwaysOn s
      then (relayOn (println ModeAlwaysOn s))\<lparr>powering := True, onMs := now\<rparr>
      else (relayOff (println ModePir s))\<lparr>powering := False\<rparr>)"

subsection \<open>I2C callbacks\<close>

definition Wire_available :: "state \<Rightarrow> nat" where
  "Wire_available s = length (rx s)"

definition Wire_read :: "state \<Rightarrow> int \<times> state" where
  \<comment> \<open>the next byte, or \<open>-1\<close> when the buffer is empty\<close>
  "Wire_read s = (case rx s of [] \<Rightarrow> (- 1, s) | b # bs \<Rightarrow> (uint b, s\<lparr>rx := bs\<rparr>))"

function drain :: "state \<Rightarrow> state" where
  \<comment> \<open>\<open>while (Wire.available()) Wire.read();\<close>\<close>
  "drain s = (if Wire_available s \<noteq> 0 then drain (snd (Wire_read s)) else s)"
  by pat_completeness auto
termination
  by (relation "measure (\<lambda>s. length (rx s))")
     (auto simp: Wire_available_def Wire_read_def split: list.splits)

declare drain.simps [simp del]

definition rxEvent :: "int \<Rightarrow> 32 word \<Rightarrow> state \<Rightarrow> state" where
  "rxEvent n now s =
     (if n = 0 then s
      else
        let (c, s1) = Wire_read s;
            cmd = (word_of_int c :: 8 word);
            s2 = (if cmd = CMD_MODE \<and> n \<ge> 2
                  then
                    let (b, s1') = Wire_read s1;
                        nm = (b \<noteq> 0)
                    in if nm \<noteq> alwaysOn s1'
                       then applyRelay now (s1'\<lparr>alwaysOn := nm\<rparr>)
                       else s1'
                  else if cmd = CMD_SHUT then s1\<lparr>rqShutdown := True\<rparr>
                  else s1)
        in drain s2)"

text \<open>
  The Wire library copies a received frame into its buffer and calls the handler with
  the number of bytes.
\<close>

definition receive :: "8 word list \<Rightarrow> 32 word \<Rightarrow> state \<Rightarrow> state" where
  "receive frame now s = rxEvent (int (length frame)) now (s\<lparr>rx := frame\<rparr>)"

definition txEvent :: "state \<Rightarrow> 8 word" where
  \<comment> \<open>the byte handed to \<open>Wire.write\<close>\<close>
  "txEvent s = battPct s"

subsection \<open>setup\<close>

record setup_in =
  ms_on     :: "32 word"           \<comment> \<open>\<open>millis()\<close> in \<open>onMs = millis()\<close>\<close>
  pir0      :: bool                \<comment> \<open>\<open>digitalRead(PIN_PIR)\<close>\<close>
  analog0   :: "nat \<Rightarrow> 16 word"    \<comment> \<open>the \<open>analogRead\<close> results\<close>
  ms_battT0 :: "32 word"           \<comment> \<open>\<open>millis()\<close> in \<open>battT = millis()\<close>\<close>

definition setup_fn :: "'f float_model \<Rightarrow> setup_in \<Rightarrow> state \<Rightarrow> outcome" where
  "setup_fn fm i s =
     (let s1 = println Banner s;
          s2 = (relayOn s1)\<lparr>powering := True, onMs := ms_on i\<rparr>;
          s3 = s2\<lparr>lastPir := pir0 i\<rparr>
      in and_then (saveBattery fm (analog0 i) s3)
           (\<lambda>s4. Returns (s4\<lparr>battT := ms_battT0 i\<rparr>)))"

subsection \<open>loop\<close>

record loop_in =
  ms_batt    :: "32 word"          \<comment> \<open>\<open>millis()\<close> in \<open>millis() - battT >= 10000UL\<close>\<close>
  ms_battT   :: "32 word"          \<comment> \<open>\<open>millis()\<close> in \<open>battT = millis()\<close>\<close>
  analog     :: "nat \<Rightarrow> 16 word"   \<comment> \<open>the \<open>analogRead\<close> results\<close>
  pir        :: bool               \<comment> \<open>\<open>digitalRead(PIN_PIR)\<close>\<close>
  ms_pir     :: "32 word"          \<comment> \<open>\<open>millis()\<close> in \<open>onMs=millis()\<close>\<close>
  ms_timeout :: "32 word"          \<comment> \<open>\<open>millis()\<close> in \<open>millis() - onMs >= 60000UL\<close>\<close>

text \<open>The four blocks of \<open>loop\<close>, in the order of the source.\<close>

definition batteryCheck :: "'f float_model \<Rightarrow> loop_in \<Rightarrow> state \<Rightarrow> outcome" where
  "batteryCheck fm i s =
     (if ms_batt i - battT s \<ge> 10000
      then saveBattery fm (analog i) (s\<lparr>battT := ms_battT i\<rparr>)
      else Returns s)"

definition pirEdge :: "loop_in \<Rightarrow> state \<Rightarrow> state" where
  "pirEdge i s =
     (let s1 = (if \<not> alwaysOn s \<and> pir i \<and> \<not> lastPir s
                then (relayOn (println PirRising s))\<lparr>powering := True, onMs := ms_pir i\<rparr>
                else s)
      in s1\<lparr>lastPir := pir i\<rparr>)"

definition holdTimeout :: "32 word \<Rightarrow> state \<Rightarrow> state" where
  \<comment> \<open>the argument is what \<open>millis()\<close> returns in the comparison\<close>
  "holdTimeout now s =
     (if \<not> alwaysOn s \<and> powering s \<and> now - onMs s \<ge> 60000
      then (relayOff (println Elapsed60 s))\<lparr>powering := False\<rparr>
      else s)"

definition shutdownCheck :: "state \<Rightarrow> state" where
  "shutdownCheck s =
     (if \<not> alwaysOn s \<and> rqShutdown s
      then (relayOff (println ShutLine s))\<lparr>powering := False, rqShutdown := False\<rparr>
      else s)"

definition loop :: "'f float_model \<Rightarrow> loop_in \<Rightarrow> state \<Rightarrow> outcome" where
  "loop fm i s =
     and_then (batteryCheck fm i s)
       (\<lambda>s1. Returns (shutdownCheck (holdTimeout (ms_timeout i) (pirEdge i s1))))"

subsection \<open>Runs of the program\<close>

datatype event =
    Loop loop_in                      \<comment> \<open>one iteration of \<open>loop\<close>\<close>
  | Receive "8 word list" "32 word"   \<comment> \<open>a frame arrives, \<open>rxEvent\<close> runs\<close>
  | Request                           \<comment> \<open>the bus controller reads, \<open>txEvent\<close> runs\<close>

fun step :: "'f float_model \<Rightarrow> event \<Rightarrow> state \<Rightarrow> outcome" where
  "step fm (Loop i) s = loop fm i s"
| "step fm (Receive frame now) s = Returns (receive frame now s)"
| "step fm Request s = Returns s"

fun run :: "'f float_model \<Rightarrow> event list \<Rightarrow> outcome \<Rightarrow> outcome" where
  "run fm [] out = out"
| "run fm (e # es) out = run fm es (and_then out (step fm e))"

text \<open>
  The states at the end of a run in which every handler runs between two iterations of
  \<open>loop\<close>.
\<close>

inductive reachable :: "'f float_model \<Rightarrow> state \<Rightarrow> bool" for fm :: "'f float_model" where
  boot: "setup_fn fm i (power_on p) = Returns s \<Longrightarrow> reachable fm s"
| next_event: "reachable fm s \<Longrightarrow> step fm e s = Returns s' \<Longrightarrow> reachable fm s'"

subsection \<open>The receive handler preempting the timeout block\<close>

text \<open>
  \<open>rxEvent\<close> is registered with \<open>Wire.onReceive\<close> and runs in interrupt context, so it
  can run between any two statements of \<open>loop\<close>. The timeout block again, with a frame
  that may arrive after the guard has been evaluated (\<open>f1\<close>) and one that may arrive
  between \<open>relayOff()\<close> and \<open>powering=false\<close> (\<open>f2\<close>).
\<close>

definition irq :: "(8 word list \<times> 32 word) option \<Rightarrow> state \<Rightarrow> state" where
  "irq f s = (case f of None \<Rightarrow> s | Some (frame, now) \<Rightarrow> receive frame now s)"

definition holdTimeout_irq ::
  "(8 word list \<times> 32 word) option \<Rightarrow> (8 word list \<times> 32 word) option \<Rightarrow> 32 word \<Rightarrow> state \<Rightarrow> state" where
  "holdTimeout_irq f1 f2 now s =
     (if \<not> alwaysOn s \<and> powering s \<and> now - onMs s \<ge> 60000
      then (irq f2 (relayOff (println Elapsed60 (irq f1 s))))\<lparr>powering := False\<rparr>
      else s)"

subsection \<open>An instance of the floating-point parameters\<close>

text \<open>
  The three expressions of \<open>saveBattery\<close> in exact rational arithmetic, with the cast
  cutting towards zero and keeping the low eight bits. The theorems hold for every
  instance; this one runs the model on concrete readings.
\<close>

definition trunc :: "rat \<Rightarrow> int" where
  "trunc x = (if x \<ge> 0 then \<lfloor>x\<rfloor> else \<lceil>x\<rceil>)"

definition exact_arith :: "rat float_model" where
  "exact_arith =
     \<lparr> volts = (\<lambda>raw. of_nat (unat raw) * 5 / 1023 * (30000 + 7500) / 7500),
       pct_u8 = (\<lambda>v. word_of_int (trunc ((v - 5.5) * 100 / 3.3))),
       lt_cut = (\<lambda>v. v < 5.4) \<rparr>"

subsection \<open>The invariant of the shipped program\<close>

definition consistent :: "state \<Rightarrow> bool" where
  "consistent s \<longleftrightarrow>
     \<not> battCutoff s \<and> powering s = relayIsOn s \<and> (alwaysOn s \<longrightarrow> powering s) \<and>
     rx s = [] \<and> unat (battPct s) \<le> 100"

subsection \<open>Inputs and states used in the examples\<close>

definition boot_in :: setup_in where
  "boot_in = \<lparr> ms_on = 10, pir0 = False, analog0 = (\<lambda>_. 300), ms_battT0 = 12 \<rparr>"

definition poll :: "bool \<Rightarrow> 32 word \<Rightarrow> loop_in" where
  \<comment> \<open>an iteration in which every \<open>millis()\<close> call returns \<open>t\<close>\<close>
  "poll p t =
     \<lparr> ms_batt = t, ms_battT = t, analog = (\<lambda>_. 300), pir = p, ms_pir = t, ms_timeout = t \<rparr>"

definition booted :: state where
  \<comment> \<open>after \<open>setup\<close>\<close>
  "booted =
     \<lparr> battCutoff = False, alwaysOn = True, rqShutdown = False, powering = True,
       onMs = 10, lastPir = False, battPct = 55, battT = 12,
       relay_pin = True, rx = [], serial = [Banner] \<rparr>"

definition pir_idle :: state where
  \<comment> \<open>motion-triggered mode, relay off, nothing pending\<close>
  "pir_idle =
     \<lparr> battCutoff = False, alwaysOn = False, rqShutdown = False, powering = False,
       onMs = 10, lastPir = False, battPct = 55, battT = 12,
       relay_pin = False, rx = [], serial = [Banner, ModePir] \<rparr>"

definition pir_active :: state where
  \<comment> \<open>motion-triggered mode, relay switched on by a rising edge at 5000 ms\<close>
  "pir_active =
     \<lparr> battCutoff = False, alwaysOn = False, rqShutdown = False, powering = True,
       onMs = 5000, lastPir = True, battPct = 55, battT = 12,
       relay_pin = True, rx = [], serial = [Banner, ModePir, PirRising] \<rparr>"


section \<open>Basic facts\<close>

lemma drain_empties: "drain s = s\<lparr>rx := []\<rparr>"
proof (induction s rule: drain.induct)
  case (1 s)
  show ?case
  proof (cases "rx s")
    case Nil
    then show ?thesis
      by (simp add: drain.simps [of s] Wire_available_def)
  next
    case (Cons b bs)
    then have "drain s = drain (s\<lparr>rx := bs\<rparr>)"
      by (simp add: drain.simps [of s] Wire_available_def Wire_read_def)
    also have "\<dots> = s\<lparr>rx := []\<rparr>"
      using 1 Cons by (simp add: Wire_available_def Wire_read_def)
    finally show ?thesis .
  qed
qed

lemmas relay_defs = relayOn_def relayOff_def relayIsOn_def println_def RELAY_ON_STATE_def

lemmas loop_defs = loop_def batteryCheck_def saveBattery_def powerDown_def pirEdge_def
  holdTimeout_def shutdownCheck_def Let_def

subsection \<open>What \<open>rxEvent\<close> does with each shape of frame\<close>

lemma receive_nil: "receive [] now s = s\<lparr>rx := []\<rparr>"
  by (simp add: receive_def rxEvent_def)

lemma receive_mode:
  "receive (CMD_MODE # b # rest) now s =
     (if (b \<noteq> 0) \<noteq> alwaysOn s
      then (applyRelay now (s\<lparr>alwaysOn := (b \<noteq> 0)\<rparr>))\<lparr>rx := []\<rparr>
      else s\<lparr>rx := []\<rparr>)"
  by (simp add: receive_def rxEvent_def Wire_read_def drain_empties applyRelay_def uint_0_iff
      relayOn_def relayOff_def println_def)

lemma receive_mode_short: "receive [CMD_MODE] now s = s\<lparr>rx := []\<rparr>"
  by (simp add: receive_def rxEvent_def Wire_read_def drain_empties CMD_MODE_def CMD_SHUT_def)

lemma receive_shut: "receive (CMD_SHUT # rest) now s = s\<lparr>rqShutdown := True, rx := []\<rparr>"
  by (simp add: receive_def rxEvent_def Wire_read_def drain_empties CMD_MODE_def CMD_SHUT_def)

lemma receive_other:
  "c \<noteq> CMD_MODE \<Longrightarrow> c \<noteq> CMD_SHUT \<Longrightarrow> receive (c # rest) now s = s\<lparr>rx := []\<rparr>"
  by (simp add: receive_def rxEvent_def Wire_read_def drain_empties)

lemma rxEvent_pin:
  "powering (rxEvent n now s) = relayIsOn (rxEvent n now s) \<or>
   (powering (rxEvent n now s) = powering s \<and> relay_pin (rxEvent n now s) = relay_pin s)"
  by (auto simp: rxEvent_def Wire_read_def drain_empties applyRelay_def relay_defs Let_def
      split: list.splits)

subsection \<open>The percentage byte\<close>

lemma pct_byte_le: "unat (word_of_int (constrain (uint (b :: 8 word)) 0 100) :: 8 word) \<le> 100"
proof -
  define c where "c = constrain (uint b) 0 100"
  have r: "0 \<le> c \<and> c \<le> 100"
    unfolding c_def by (simp add: constrain_def)
  then have "uint (word_of_int c :: 8 word) = c"
    by (simp add: uint_word_of_int)
  then have "unat (word_of_int c :: 8 word) = nat c"
    by (simp add: unat_eq_nat_uint)
  moreover from r have "nat c \<le> 100"
    by linarith
  ultimately show ?thesis
    unfolding c_def by simp
qed

subsection \<open>What \<open>setup\<close> and \<open>loop\<close> leave behind\<close>

lemma setup_returns:
  "\<exists>s. setup_fn fm i (power_on p) = Returns s \<and> \<not> battCutoff s \<and> alwaysOn s \<and> powering s
     \<and> relay_pin s = RELAY_ON_STATE \<and> rx s = [] \<and> unat (battPct s) \<le> 100"
  by (simp add: setup_fn_def power_on_def saveBattery_def relay_defs Let_def pct_byte_le)

lemma loop_returns: "\<not> battCutoff s \<Longrightarrow> \<exists>s'. loop fm i s = Returns s'"
  by (simp add: loop_defs)

lemma loop_battCutoff: "battCutoff (final (loop fm i s)) = battCutoff s"
  by (simp add: loop_defs relay_defs)

lemma loop_rx: "rx (final (loop fm i s)) = rx s"
  by (simp add: loop_defs relay_defs)

lemma loop_alwaysOn: "alwaysOn (final (loop fm i s)) = alwaysOn s"
  by (simp add: loop_defs relay_defs)

lemma loop_pin:
  "loop fm i s = Returns s' \<Longrightarrow>
     powering s' = relayIsOn s' \<or> (powering s' = powering s \<and> relay_pin s' = relay_pin s)"
  by (auto simp: loop_defs relay_defs split: if_splits)

lemma loop_battPct: "unat (battPct s) \<le> 100 \<Longrightarrow> unat (battPct (final (loop fm i s))) \<le> 100"
  by (simp add: loop_defs relay_defs pct_byte_le)

lemma loop_always_on:
  "alwaysOn s \<Longrightarrow> loop fm i s = Returns s' \<Longrightarrow>
     powering s' = powering s \<and> relay_pin s' = relay_pin s \<and> rqShutdown s' = rqShutdown s
     \<and> onMs s' = onMs s \<and> serial s' = serial s"
  by (auto simp: loop_defs relay_defs split: if_splits)

lemma applyRelay_fields:
  "battCutoff (applyRelay now s) = battCutoff s"
  "alwaysOn (applyRelay now s) = alwaysOn s"
  "powering (applyRelay now s) = alwaysOn s"
  "relay_pin (applyRelay now s) = alwaysOn s"
  "rqShutdown (applyRelay now s) = rqShutdown s"
  "battPct (applyRelay now s) = battPct s"
  "alwaysOn s \<Longrightarrow> onMs (applyRelay now s) = now"
  by (simp_all add: applyRelay_def relay_defs)

subsection \<open>The invariant holds in every reachable state\<close>

lemma receive_cases:
  "receive frame now s = s\<lparr>rx := []\<rparr> \<or>
   receive frame now s = s\<lparr>rqShutdown := True, rx := []\<rparr> \<or>
   (\<exists>nm. nm \<noteq> alwaysOn s \<and> receive frame now s = (applyRelay now (s\<lparr>alwaysOn := nm\<rparr>))\<lparr>rx := []\<rparr>)"
proof (cases frame)
  case Nil
  then show ?thesis by (simp add: receive_nil)
next
  case (Cons c rest)
  show ?thesis
  proof (cases "c = CMD_MODE")
    case True
    show ?thesis
    proof (cases rest)
      case Nil
      with True Cons show ?thesis by (simp add: receive_mode_short)
    next
      case (Cons b rest')
      with True \<open>frame = c # rest\<close> show ?thesis by (simp add: receive_mode)
    qed
  next
    case False
    with Cons show ?thesis
      by (cases "c = CMD_SHUT") (simp_all add: receive_shut receive_other)
  qed
qed

lemma receive_consistent: "consistent s \<Longrightarrow> consistent (receive frame now s)"
  using receive_cases [of frame now s]
  by (auto simp: consistent_def relayIsOn_def RELAY_ON_STATE_def applyRelay_fields)

lemma loop_consistent:
  assumes "consistent s" and r: "loop fm i s = Returns s'"
  shows "consistent s'"
proof -
  from r have f: "final (loop fm i s) = s'" by simp
  from assms(1) have a: "\<not> battCutoff s" "powering s = relayIsOn s" "alwaysOn s \<longrightarrow> powering s"
    "rx s = []" "unat (battPct s) \<le> 100"
    unfolding consistent_def by blast+
  have "\<not> battCutoff s'" using loop_battCutoff [of fm i s] a(1) f by simp
  moreover have "rx s' = []" using loop_rx [of fm i s] a(4) f by simp
  moreover have "unat (battPct s') \<le> 100" using loop_battPct [OF a(5), of fm i] f by simp
  moreover have "powering s' = relayIsOn s'"
    using loop_pin [OF r] a(2) by (auto simp: relayIsOn_def)
  moreover have "alwaysOn s' \<longrightarrow> powering s'"
    using loop_alwaysOn [of fm i s] loop_always_on [OF _ r] a(3) f by auto
  ultimately show ?thesis by (simp add: consistent_def)
qed

lemma setup_consistent: "setup_fn fm i (power_on p) = Returns s \<Longrightarrow> consistent s"
  using setup_returns [of fm i p] by (auto simp: consistent_def relayIsOn_def)

lemma reachable_consistent: "reachable fm s \<Longrightarrow> consistent s"
proof (induction rule: reachable.induct)
  case (boot i p s)
  then show ?case by (rule setup_consistent)
next
  case (next_event s e s')
  then show ?case
    by (cases e) (auto intro: loop_consistent receive_consistent)
qed

subsection \<open>Reachable states are the ends of runs\<close>

lemma run_halted: "run fm evs (Halts h) = Halts h"
  by (induction evs) simp_all

lemma run_append: "run fm (xs @ ys) out = run fm ys (run fm xs out)"
  by (induction xs arbitrary: out) simp_all

lemma run_from_reachable:
  "reachable fm s \<Longrightarrow> run fm evs (Returns s) = Returns s' \<Longrightarrow> reachable fm s'"
proof (induction evs arbitrary: s)
  case Nil
  then show ?case by simp
next
  case (Cons e evs)
  show ?case
  proof (cases "step fm e s")
    case (Returns s1)
    with Cons.prems(1) have "reachable fm s1"
      by (rule reachable.next_event)
    moreover from Cons.prems(2) Returns have "run fm evs (Returns s1) = Returns s'"
      by simp
    ultimately show ?thesis
      by (rule Cons.IH)
  next
    case (Halts h)
    with Cons.prems(2) show ?thesis
      by (simp add: run_halted)
  qed
qed

lemma reachable_iff_run:
  "reachable fm s \<longleftrightarrow> (\<exists>i p evs. run fm evs (setup_fn fm i (power_on p)) = Returns s)"
proof
  assume "reachable fm s"
  then show "\<exists>i p evs. run fm evs (setup_fn fm i (power_on p)) = Returns s"
  proof (induction rule: reachable.induct)
    case (boot i p s)
    then have "run fm [] (setup_fn fm i (power_on p)) = Returns s"
      by simp
    then show ?case by blast
  next
    case (next_event s e s')
    then obtain i p evs where "run fm evs (setup_fn fm i (power_on p)) = Returns s"
      by blast
    with next_event.hyps(2) have "run fm (evs @ [e]) (setup_fn fm i (power_on p)) = Returns s'"
      by (simp add: run_append)
    then show ?case by blast
  qed
next
  assume "\<exists>i p evs. run fm evs (setup_fn fm i (power_on p)) = Returns s"
  then obtain i p evs where r: "run fm evs (setup_fn fm i (power_on p)) = Returns s"
    by blast
  from setup_returns [of fm i p] obtain s0 where s0: "setup_fn fm i (power_on p) = Returns s0"
    by blast
  then have "reachable fm s0"
    by (rule reachable.boot)
  moreover from r s0 have "run fm evs (Returns s0) = Returns s"
    by simp
  ultimately show "reachable fm s"
    by (rule run_from_reachable)
qed

subsection \<open>The example states are reachable\<close>

lemma setup_booted: "setup_fn exact_arith boot_in (power_on False) = Returns booted"
  by code_simp

lemma booted_reachable: "reachable exact_arith booted"
  by (rule reachable.boot [OF setup_booted])

lemma idle_step: "step fm (Receive [CMD_MODE, 0] 1000) booted = Returns pir_idle"
  by (simp add: receive_mode booted_def pir_idle_def applyRelay_def relay_defs)

lemma active_step: "step fm (Loop (poll True 5000)) pir_idle = Returns pir_active"
  by (simp add: poll_def pir_idle_def pir_active_def loop_defs relay_defs)

lemma pir_idle_reachable: "reachable exact_arith pir_idle"
  by (rule reachable.next_event [OF booted_reachable idle_step])

lemma pir_active_reachable: "reachable exact_arith pir_active"
  by (rule reachable.next_event [OF pir_idle_reachable active_step])

section \<open>Mode changes\<close>

text \<open>
  C1. A set-mode frame whose mode byte differs from the current mode switches the mode
  and re-asserts the relay inside the handler, whatever the state was before: to
  always-on, the relay flag and pin are ON and the power timer is the current time; to
  motion-triggered, the relay flag and pin are OFF.
\<close>

theorem mode_change_forces_relay:
  "(b \<noteq> 0) \<noteq> alwaysOn s \<Longrightarrow>
     (let s' = receive (CMD_MODE # b # rest) now s in
        alwaysOn s' = (b \<noteq> 0) \<and>
        (b \<noteq> 0 \<longrightarrow> powering s' \<and> relayIsOn s' \<and> onMs s' = now) \<and>
        (b = 0 \<longrightarrow> \<not> powering s' \<and> \<not> relayIsOn s'))"
proof -
  assume differs: "(b \<noteq> 0) \<noteq> alwaysOn s"
  define s' where "s' = receive (CMD_MODE # b # rest) now s"
  from differs have applied: "s' = (applyRelay now (s\<lparr>alwaysOn := (b \<noteq> 0)\<rparr>))\<lparr>rx := []\<rparr>"
    unfolding s'_def by (simp add: receive_mode)
  then have mode: "alwaysOn s' = (b \<noteq> 0)"
    by (simp add: applyRelay_fields)
  have "powering s' \<and> relayIsOn s' \<and> onMs s' = now" if "b \<noteq> 0"
    using that applied by (simp add: applyRelay_fields relayIsOn_def RELAY_ON_STATE_def)
  moreover have "\<not> powering s' \<and> \<not> relayIsOn s'" if "b = 0"
    using that applied by (simp add: applyRelay_fields relayIsOn_def RELAY_ON_STATE_def)
  ultimately show ?thesis
    using mode unfolding s'_def Let_def by blast
qed

theorem mode_change_forces_relay_witness:
  "(let s' = receive [CMD_MODE, 1, 0xAA] 5000 pir_idle in
      alwaysOn s' \<and> powering s' \<and> relayIsOn s' \<and> onMs s' = 5000)"
  using mode_change_forces_relay [of 1 pir_idle "[0xAA]" 5000]
  by (simp add: pir_idle_def Let_def)

text \<open>
  C5. A set-mode frame whose mode byte equals the current mode changes nothing: mode,
  relay flag, relay pin, power timer and serial output stay as they were; only the
  receive buffer is emptied.
\<close>

theorem mode_reassertion_is_noop:
  "(b \<noteq> 0) = alwaysOn s \<Longrightarrow>
     (let s' = receive (CMD_MODE # b # rest) now s in
        s' = s\<lparr>rx := []\<rparr> \<and> alwaysOn s' = alwaysOn s \<and> powering s' = powering s \<and>
        relay_pin s' = relay_pin s \<and> onMs s' = onMs s \<and> serial s' = serial s)"
  by (simp add: receive_mode)

theorem mode_reassertion_is_noop_witness:
  "receive [CMD_MODE, 0] 5000 pir_idle = pir_idle"
  using mode_reassertion_is_noop [of 0 pir_idle "[]" 5000]
  by (simp add: pir_idle_def Let_def)

section \<open>The 60 s hold window\<close>

lemma holdTimeout_expired:
  "\<not> alwaysOn s \<Longrightarrow> powering s \<Longrightarrow>
     holdTimeout (onMs s + 60000) s = (relayOff (println Elapsed60 s))\<lparr>powering := False\<rparr>"
  by (simp add: holdTimeout_def)

lemma holdTimeout_pending: "holdTimeout (onMs s + 59999) s = s"
  by (simp add: holdTimeout_def)

text \<open>
  C2. In motion-triggered mode, with the relay on since \<open>t0 = onMs\<close>: the timeout check
  of \<open>loop\<close> at \<open>t0 + 60000\<close> switches the relay OFF, and at \<open>t0 + 59999\<close> it leaves
  the state as it is, relay ON; the comparison is \<open>>=\<close> against 60000, in wrapping
  32-bit arithmetic. The same holds for a whole iteration of \<open>loop\<close> whose timeout
  check reads that time: OFF at \<open>t0 + 60000\<close> when the iteration sees no new rising
  edge, ON at \<open>t0 + 59999\<close> when moreover no shutdown request is pending.
\<close>

theorem hold_window_boundary:
  assumes r: "reachable fm s" and m: "\<not> alwaysOn s" and on: "powering s"
  shows "relayIsOn s \<and>
     \<not> powering (holdTimeout (onMs s + 60000) s) \<and>
     \<not> relayIsOn (holdTimeout (onMs s + 60000) s) \<and>
     holdTimeout (onMs s + 59999) s = s \<and>
     (\<not> (pir i \<and> \<not> lastPir s) \<and> ms_timeout i = onMs s + 60000 \<longrightarrow>
        (\<exists>s'. loop fm i s = Returns s' \<and> \<not> powering s' \<and> \<not> relayIsOn s')) \<and>
     (\<not> (pir j \<and> \<not> lastPir s) \<and> \<not> rqShutdown s \<and> ms_timeout j = onMs s + 59999 \<longrightarrow>
        (\<exists>s'. loop fm j s = Returns s' \<and> powering s' \<and> relayIsOn s'))"
proof -
  from reachable_consistent [OF r] have c: "\<not> battCutoff s" and p: "powering s = relayIsOn s"
    by (simp_all add: consistent_def)
  from p on have pin: "relayIsOn s" by simp
  have off: "\<not> powering (holdTimeout (onMs s + 60000) s) \<and>
      \<not> relayIsOn (holdTimeout (onMs s + 60000) s)"
    by (simp add: holdTimeout_expired [OF m on] relay_defs)
  have late: "\<exists>s'. loop fm i s = Returns s' \<and> \<not> powering s' \<and> \<not> relayIsOn s'"
    if "\<not> (pir i \<and> \<not> lastPir s)" "ms_timeout i = onMs s + 60000"
    using that c m on by (auto simp: loop_defs relay_defs)
  have early: "\<exists>s'. loop fm j s = Returns s' \<and> powering s' \<and> relayIsOn s'"
    if "\<not> (pir j \<and> \<not> lastPir s)" "\<not> rqShutdown s" "ms_timeout j = onMs s + 59999"
    using that c m on pin by (auto simp: loop_defs relay_defs)
  from pin off holdTimeout_pending late early show ?thesis by blast
qed

theorem hold_window_boundary_witness:
  "relayIsOn pir_active \<and>
   \<not> powering (holdTimeout 65000 pir_active) \<and> \<not> relayIsOn (holdTimeout 65000 pir_active) \<and>
   holdTimeout 64999 pir_active = pir_active \<and>
   (\<exists>s'. loop exact_arith (poll True 65000) pir_active = Returns s' \<and>
      \<not> powering s' \<and> \<not> relayIsOn s') \<and>
   (\<exists>s'. loop exact_arith (poll True 64999) pir_active = Returns s' \<and>
      powering s' \<and> relayIsOn s')"
proof -
  have a: "\<not> alwaysOn pir_active" "powering pir_active" "onMs pir_active = 5000"
    "lastPir pir_active" "\<not> rqShutdown pir_active"
    by (simp_all add: pir_active_def)
  from hold_window_boundary [OF pir_active_reachable a(1) a(2),
      of "poll True 65000" "poll True 64999"]
  show ?thesis
    by (simp add: a poll_def)
qed

section \<open>Shutdown requests\<close>

lemma loop_always_on_keeps:
  assumes "\<not> battCutoff s" "alwaysOn s"
  shows "\<exists>s'. loop fm i s = Returns s' \<and> \<not> battCutoff s' \<and> alwaysOn s' \<and>
     powering s' = powering s \<and> relay_pin s' = relay_pin s \<and> rqShutdown s' = rqShutdown s"
  using assms by (simp add: loop_defs relay_defs)

lemma run_always_on_keeps:
  "\<not> battCutoff s \<Longrightarrow> alwaysOn s \<Longrightarrow>
     \<exists>sk. run fm (map Loop is) (Returns s) = Returns sk \<and> alwaysOn sk \<and>
       powering sk = powering s \<and> relay_pin sk = relay_pin s \<and> rqShutdown sk = rqShutdown s"
proof (induction "is" arbitrary: s)
  case Nil
  then show ?case by simp
next
  case (Cons i "is")
  from loop_always_on_keeps [OF Cons.prems, of fm i] obtain s' where
    s': "loop fm i s = Returns s'" "\<not> battCutoff s'" "alwaysOn s'"
      "powering s' = powering s" "relay_pin s' = relay_pin s" "rqShutdown s' = rqShutdown s"
    by blast
  from Cons.IH [OF s'(2) s'(3)] s' show ?case
    by simp
qed

text \<open>
  C3. In every state of the shipped build (cutoff not enabled), a shutdown request sets
  the flag in either mode, and the next iteration of \<open>loop\<close> returns. In always-on
  mode that iteration leaves the relay flag and the relay pin as they were, so a relay
  that is ON stays ON, and the flag is still set afterwards; this stays so over any
  number of further iterations. In motion-triggered mode the relay is OFF and the flag
  is cleared.
\<close>

theorem shutdown_request_by_mode:
  assumes nc: "\<not> battCutoff s"
  shows "rqShutdown (receive (CMD_SHUT # rest) now s) \<and>
     (\<exists>s2. loop fm i (receive (CMD_SHUT # rest) now s) = Returns s2 \<and>
        (alwaysOn s \<longrightarrow>
           powering s2 = powering s \<and> relay_pin s2 = relay_pin s \<and> rqShutdown s2 \<and>
           (powering s \<and> relayIsOn s \<longrightarrow> powering s2 \<and> relayIsOn s2)) \<and>
        (\<not> alwaysOn s \<longrightarrow> \<not> powering s2 \<and> \<not> relayIsOn s2 \<and> \<not> rqShutdown s2)) \<and>
     (alwaysOn s \<longrightarrow>
        (\<exists>sk. run fm (map Loop is) (Returns (receive (CMD_SHUT # rest) now s)) = Returns sk \<and>
           alwaysOn sk \<and> powering sk = powering s \<and> relay_pin sk = relay_pin s \<and>
           rqShutdown sk))"
proof -
  let ?s1 = "receive (CMD_SHUT # rest) now s"
  have s1: "?s1 = s\<lparr>rqShutdown := True, rx := []\<rparr>"
    by (rule receive_shut)
  from nc s1 have nc1: "\<not> battCutoff ?s1"
    by simp
  from loop_returns [OF nc1] obtain s2 where l: "loop fm i ?s1 = Returns s2"
    by blast
  have a: "powering s2 = powering s \<and> relay_pin s2 = relay_pin s \<and> rqShutdown s2" if "alwaysOn s"
  proof -
    from that s1 have m: "alwaysOn ?s1" by simp
    from loop_always_on [OF m l] s1 show ?thesis by simp
  qed
  have b: "\<not> powering s2 \<and> \<not> relayIsOn s2 \<and> \<not> rqShutdown s2" if "\<not> alwaysOn s"
    using that l nc unfolding s1 by (auto simp: loop_defs relay_defs split: if_splits)
  have k: "\<exists>sk. run fm (map Loop is) (Returns ?s1) = Returns sk \<and> alwaysOn sk \<and>
      powering sk = powering s \<and> relay_pin sk = relay_pin s \<and> rqShutdown sk" if "alwaysOn s"
  proof -
    from that s1 have m: "alwaysOn ?s1" by simp
    from run_always_on_keeps [OF nc1 m, of fm "is"] s1 show ?thesis
      by auto
  qed
  from s1 l a b k show ?thesis
    by (auto simp: relayIsOn_def)
qed

theorem shutdown_request_by_mode_witness:
  "(\<exists>s2. loop exact_arith (poll False 3000) (receive [CMD_SHUT] 2000 booted) = Returns s2 \<and>
      powering s2 \<and> relayIsOn s2 \<and> rqShutdown s2) \<and>
   (\<exists>s2. loop exact_arith (poll False 7000) (receive [CMD_SHUT] 6000 pir_active) = Returns s2 \<and>
      \<not> powering s2 \<and> \<not> relayIsOn s2 \<and> \<not> rqShutdown s2)"
proof -
  have a: "\<not> battCutoff booted" "alwaysOn booted" "powering booted" "relayIsOn booted"
    "\<not> battCutoff pir_active" "\<not> alwaysOn pir_active"
    by (simp_all add: booted_def pir_active_def relay_defs)
  from shutdown_request_by_mode [OF a(1), of "[]" 2000 exact_arith "poll False 3000" "[]"]
    shutdown_request_by_mode [OF a(5), of "[]" 6000 exact_arith "poll False 7000" "[]"]
  show ?thesis
    using a by auto
qed

section \<open>Motion edges\<close>








section \<open>Malformed frames\<close>

text \<open>
  An over-length frame is not ignored. After \<open>setup\<close>, a shutdown frame with one byte
  too many sets the shutdown flag, and a set-mode frame with one byte too many switches
  the mode and the relay.
\<close>

theorem overlength_frame_counterexample:
  "\<not> rqShutdown booted \<and> rqShutdown (receive [CMD_SHUT, 0x55] 2000 booted) \<and>
   alwaysOn booted \<and> \<not> alwaysOn (receive [CMD_MODE, 0, 0x55] 2000 booted) \<and>
   relayIsOn booted \<and> \<not> relayIsOn (receive [CMD_MODE, 0, 0x55] 2000 booted)"
  by (simp add: receive_shut receive_mode applyRelay_fields booted_def relayIsOn_def
      RELAY_ON_STATE_def)

text \<open>
  C8, as the code has it. The empty frame, a set-mode frame without its mode byte, and
  every frame whose first byte is neither \<open>CMD_MODE\<close> nor \<open>CMD_SHUT\<close> change
  nothing but the receive buffer, which is emptied (in a reachable state it is empty
  already, so the state is the same). Every frame leaves the buffer empty. A frame
  with surplus bytes behind a set-mode command and its mode byte, or behind a shutdown
  command, has the effect of that command alone.
\<close>

theorem malformed_frames_tolerated:
  "(frame = [] \<or> frame = [CMD_MODE] \<or> (\<exists>c rest. frame = c # rest \<and> c \<noteq> CMD_MODE \<and> c \<noteq> CMD_SHUT)
      \<longrightarrow> receive frame now s = s\<lparr>rx := []\<rparr> \<and> (reachable fm s \<longrightarrow> receive frame now s = s)) \<and>
   rx (receive frame now s) = [] \<and>
   receive (CMD_MODE # b # extra) now s = receive [CMD_MODE, b] now s \<and>
   receive (CMD_SHUT # extra) now s = receive [CMD_SHUT] now s"
proof -
  have ign: "receive frame now s = s\<lparr>rx := []\<rparr>"
    if "frame = [] \<or> frame = [CMD_MODE] \<or>
        (\<exists>c rest. frame = c # rest \<and> c \<noteq> CMD_MODE \<and> c \<noteq> CMD_SHUT)"
    using that by (auto simp: receive_nil receive_mode_short receive_other)
  have same: "s\<lparr>rx := []\<rparr> = s" if "reachable fm s"
    using reachable_consistent [OF that] by (simp add: consistent_def)
  have drained: "rx (receive frame now s) = []"
    using receive_cases [of frame now s] by auto
  have "receive (CMD_MODE # b # extra) now s = receive [CMD_MODE, b] now s"
    by (simp add: receive_mode)
  moreover have "receive (CMD_SHUT # extra) now s = receive [CMD_SHUT] now s"
    by (simp add: receive_shut)
  ultimately show ?thesis
    using ign same drained by auto
qed

theorem malformed_frames_tolerated_witness:
  "receive [0x42, 1, 2, 3] 2000 pir_active = pir_active \<and>
   receive [CMD_MODE] 2000 pir_active = pir_active \<and>
   receive [] 2000 pir_active = pir_active \<and>
   receive [CMD_SHUT, 9, 9] 2000 pir_active = receive [CMD_SHUT] 2000 pir_active"
proof -
  have ne: "(0x42 :: 8 word) \<noteq> CMD_MODE" "(0x42 :: 8 word) \<noteq> CMD_SHUT"
    by (simp_all add: CMD_MODE_def CMD_SHUT_def)
  from malformed_frames_tolerated [of "[0x42, 1, 2, 3]" 2000 pir_active exact_arith]
    malformed_frames_tolerated [of "[CMD_MODE]" 2000 pir_active exact_arith]
    malformed_frames_tolerated [of "[]" 2000 pir_active exact_arith _ "[9, 9]"]
    pir_active_reachable ne
  show ?thesis by auto
qed

section \<open>Relay flag and relay pin\<close>

text \<open>
  As long as no handler runs in the middle of an operation, flag and pin stay together:
  whatever the level of the pin at power-on, \<open>setup\<close> returns in always-on mode with
  the relay flag and the pin both ON; an iteration of \<open>loop\<close> that returns, and every
  run of \<open>rxEvent\<close>, either leaves flag and pin as they were or leaves them in
  agreement; so they agree at the end of every run in which the handlers run between
  iterations.
\<close>

lemma uninterrupted_flag_matches_pin:
  "(setup_fn fm i0 (power_on p) = Returns s0 \<longrightarrow> alwaysOn s0 \<and> powering s0 \<and> relayIsOn s0) \<and>
   (loop fm i s = Returns s' \<longrightarrow>
      powering s' = relayIsOn s' \<or> (powering s' = powering s \<and> relay_pin s' = relay_pin s)) \<and>
   (powering (rxEvent n now s) = relayIsOn (rxEvent n now s) \<or>
      (powering (rxEvent n now s) = powering s \<and> relay_pin (rxEvent n now s) = relay_pin s)) \<and>
   (reachable fm t \<longrightarrow> powering t = relayIsOn t)"
proof -
  have "alwaysOn s0 \<and> powering s0 \<and> relayIsOn s0" if "setup_fn fm i0 (power_on p) = Returns s0"
    using setup_returns [of fm i0 p] that by (auto simp: relayIsOn_def)
  moreover have "powering t = relayIsOn t" if "reachable fm t"
    using reachable_consistent [OF that] by (simp add: consistent_def)
  ultimately show ?thesis
    using loop_pin [of fm i s s'] rxEvent_pin [of n now s] by blast
qed

text \<open>
  A handler in the middle of the timeout block breaks this. A set-mode frame for
  always-on that arrives between \<open>relayOff()\<close> and \<open>powering=false\<close> leaves the
  controller in always-on mode with the pin ON and the flag off; one that arrives after
  the guard has been evaluated leaves it in always-on mode with the relay off.
\<close>

lemma holdTimeout_irq_none: "holdTimeout_irq None None now s = holdTimeout now s"
  by (simp add: holdTimeout_irq_def holdTimeout_def irq_def)

lemma preempted_after_pin_write:
  assumes "\<not> alwaysOn s" "powering s" "now - onMs s \<ge> 60000" "b \<noteq> 0"
  shows "alwaysOn (holdTimeout_irq None (Some (CMD_MODE # b # rest, t)) now s) \<and>
     relayIsOn (holdTimeout_irq None (Some (CMD_MODE # b # rest, t)) now s) \<and>
     \<not> powering (holdTimeout_irq None (Some (CMD_MODE # b # rest, t)) now s)"
  using assms
  by (simp add: holdTimeout_irq_def irq_def receive_mode applyRelay_def relay_defs)

lemma preempted_after_guard:
  assumes "\<not> alwaysOn s" "powering s" "now - onMs s \<ge> 60000" "b \<noteq> 0"
  shows "alwaysOn (holdTimeout_irq (Some (CMD_MODE # b # rest, t)) None now s) \<and>
     \<not> relayIsOn (holdTimeout_irq (Some (CMD_MODE # b # rest, t)) None now s) \<and>
     \<not> powering (holdTimeout_irq (Some (CMD_MODE # b # rest, t)) None now s)"
  using assms
  by (simp add: holdTimeout_irq_def irq_def receive_mode applyRelay_def relay_defs)

text \<open>
  C9, at a failing input. The relay has been on since 5000 ms in motion-triggered mode,
  flag and pin in agreement. The timeout block runs at 65000 ms, and the frame
  \<open>[CMD_MODE, 1]\<close> is handled between its \<open>relayOff()\<close> and its \<open>powering=false\<close>. The
  block ends in always-on mode with the relay pin ON and the relay flag off.
\<close>

theorem handler_between_pin_and_flag:
  "(let s' = holdTimeout_irq None (Some ([CMD_MODE, 1], 65010)) 65000 pir_active
    in powering pir_active = relayIsOn pir_active \<and>
       alwaysOn s' \<and> relayIsOn s' \<and> \<not> powering s')"
  by (simp add: holdTimeout_irq_def irq_def receive_mode applyRelay_def relay_defs
      pir_active_def)

section \<open>Battery percentage\<close>

text \<open>
  C7. Whatever the eight ADC reads and whatever the floating-point expressions yield,
  the percentage that \<open>saveBattery\<close> stores, and that \<open>txEvent\<close> then reports, is at
  most 100 (and, being a byte, at least 0); so is the percentage reported in any
  reachable state.
\<close>

theorem battery_percent_clamped:
  "unat (battPct (final (saveBattery fm a s))) \<le> 100 \<and>
   unat (txEvent (final (saveBattery fm a s))) \<le> 100 \<and>
   (reachable fm t \<longrightarrow> unat (txEvent t) \<le> 100)"
proof -
  have "unat (battPct (final (saveBattery fm a s))) \<le> 100"
    by (simp add: saveBattery_def powerDown_def Let_def relay_defs pct_byte_le)
  moreover have "unat (battPct t) \<le> 100" if "reachable fm t"
    using reachable_consistent [OF that] by (simp add: consistent_def)
  ultimately show ?thesis
    by (simp add: txEvent_def)
qed

theorem battery_percent_clamped_witness:
  "unat (battPct (final (saveBattery exact_arith (\<lambda>_. 1023) booted))) \<le> 100 \<and>
   unat (txEvent pir_active) \<le> 100"
  using battery_percent_clamped [of exact_arith "\<lambda>_. 1023" booted pir_active]
    pir_active_reachable
  by simp

text \<open>
  The clamp acts on the byte that the cast produces. In the exact-arithmetic instance a
  reading of 300 (about 7.3 V) gives 55; a full-scale reading gives the quotient 590,
  whose low byte is 78; a reading of 200 (about 4.9 V) gives the quotient -18, whose low
  byte 238 is clamped to 100.
\<close>

lemma percent_examples:
  "battPct (final (saveBattery exact_arith (\<lambda>_. 300) booted)) = 55 \<and>
   battPct (final (saveBattery exact_arith (\<lambda>_. 1023) booted)) = 78 \<and>
   battPct (final (saveBattery exact_arith (\<lambda>_. 200) booted)) = 100"
  by code_simp

section \<open>Low-voltage cutoff\<close>




lemma run_returns:
  "consistent s \<Longrightarrow> \<exists>s'. run fm evs (Returns s) = Returns s' \<and> consistent s'"
proof (induction evs arbitrary: s)
  case Nil
  then show ?case by simp
next
  case (Cons e evs)
  have "\<exists>s1. step fm e s = Returns s1 \<and> consistent s1"
  proof (cases e)
    case (Loop i)
    from Cons.prems have "\<not> battCutoff s" by (simp add: consistent_def)
    from loop_returns [OF this, of fm i] obtain s1 where "loop fm i s = Returns s1" by blast
    with loop_consistent [OF Cons.prems this] Loop show ?thesis by simp
  next
    case (Receive frame now)
    with receive_consistent [OF Cons.prems] show ?thesis by simp
  next
    case Request
    with Cons.prems show ?thesis by simp
  qed
  then obtain s1 where "step fm e s = Returns s1" "consistent s1" by blast
  with Cons.IH [OF this(2)] show ?case by simp
qed

text \<open>
  C10. In the program as shipped no operation writes \<open>battCutoff\<close>: after \<open>setup\<close> and
  any sequence of loop iterations and callbacks the controller has not halted and the
  flag is false. In every reachable state the flag is false, \<open>saveBattery\<close> returns
  for every sample, and so does every next operation.
\<close>

theorem cutoff_never_enabled:
  "(\<exists>s'. run fm evs (setup_fn fm i (power_on p)) = Returns s' \<and> \<not> battCutoff s') \<and>
   (reachable fm s \<longrightarrow>
      \<not> battCutoff s \<and> (\<exists>s'. saveBattery fm a s = Returns s') \<and> (\<exists>s'. step fm e s = Returns s'))"
proof -
  from setup_returns [of fm i p] obtain s0 where
    s0: "setup_fn fm i (power_on p) = Returns s0" by blast
  from run_returns [OF setup_consistent [OF s0], of fm evs] s0
  have "\<exists>s'. run fm evs (setup_fn fm i (power_on p)) = Returns s' \<and> \<not> battCutoff s'"
    by (auto simp: consistent_def)
  moreover have "\<not> battCutoff s \<and> (\<exists>s'. saveBattery fm a s = Returns s') \<and>
      (\<exists>s'. step fm e s = Returns s')" if "reachable fm s"
  proof -
    from reachable_consistent [OF that] have c: "consistent s" .
    then have n: "\<not> battCutoff s" by (simp add: consistent_def)
    then have "\<exists>s'. saveBattery fm a s = Returns s'"
      by (simp add: saveBattery_def Let_def)
    moreover from run_returns [OF c, of fm "[e]"] have "\<exists>s'. step fm e s = Returns s'"
      by auto
    ultimately show ?thesis using n by simp
  qed
  ultimately show ?thesis by blast
qed

theorem cutoff_never_enabled_witness:
  "(\<exists>s'. run exact_arith [Loop (poll True 90000), Receive [CMD_MODE, 0] 90010]
       (setup_fn exact_arith boot_in (power_on False)) = Returns s' \<and> \<not> battCutoff s') \<and>
   \<not> battCutoff pir_active \<and>
   (\<exists>s'. saveBattery exact_arith (\<lambda>_. 200) pir_active = Returns s') \<and>
   (\<exists>s'. step exact_arith (Loop (poll True 90000)) pir_active = Returns s')"
  using cutoff_never_enabled [of exact_arith
      "[Loop (poll True 90000), Receive [CMD_MODE, 0] 90010]" boot_in False pir_active
      "\<lambda>_. 200" "Loop (poll True 90000)"]
    pir_active_reachable
  by simp

end
